theory Spec2Isabelle
  imports Main
begin

section \<open>Python values used by \<^verbatim>\<open>process_pdfs.py\<close>\<close>

text \<open>
  The exceptions the modelled code can raise. \<open>IndexError\<close> is raised by \<^verbatim>\<open>line[1]\<close> on a
  one-character line, \<open>ValueError\<close> by \<^verbatim>\<open>range\<close> with step zero, \<open>UnboundLocalError\<close> by reading
  the local \<^verbatim>\<open>driver\<close> before it was assigned; \<open>External\<close> stands for whatever a collaborator
  (the database driver, the file system) raises.
\<close>

datatype error = IndexError | ValueError | UnboundLocalError | External string

text \<open>
  A Python \<^verbatim>\<open>str\<close> is modelled as a \<^typ>\<open>string\<close> whose characters are the code points
  0..255. On that range \<^verbatim>\<open>str.isspace\<close> holds for 9..13, 28..31, 32, 133 and 160, and
  \<^verbatim>\<open>str.isdigit\<close> for the ten ASCII digits and the superscripts 178, 179 and 185.
\<close>

definition isspace :: "char \<Rightarrow> bool" where
  "isspace c = (of_char c \<in> set [9, 10, 11, 12, 13, 28, 29, 30, 31, 32, 133, 160 :: nat])"

definition isdigit :: "char \<Rightarrow> bool" where
  "isdigit c = (of_char c \<in> set [48, 49, 50, 51, 52, 53, 54, 55, 56, 57, 178, 179, 185 :: nat])"

text \<open>\<^verbatim>\<open>s.strip()\<close>: leading and trailing whitespace removed.\<close>

definition strip :: "string \<Rightarrow> string" where
  "strip s = rev (dropWhile isspace (rev (dropWhile isspace s)))"

text \<open>\<^verbatim>\<open>s.startswith(p)\<close>.\<close>

definition startswith :: "string \<Rightarrow> string \<Rightarrow> bool" where
  "startswith s p = (take (length p) s = p)"

text \<open>
  \<^verbatim>\<open>s.split(sep)\<close>: the text is scanned from the left, every occurrence of \<open>sep\<close> found
  that way ends a part. Python raises for an empty separator; the source passes the literals
  \<^verbatim>\<open>"\n"\<close>, \<^verbatim>\<open>"->"\<close> and \<^verbatim>\<open>"."\<close> only, and the model returns the text unsplit there.
\<close>

function str_split :: "string \<Rightarrow> string \<Rightarrow> string list" where
  "str_split s sep =
     (if sep = [] then [s]
      else if s = [] then [[]]
      else if startswith s sep then [] # str_split (drop (length sep) s) sep
      else (case str_split (tl s) sep of
              [] \<Rightarrow> [[hd s]]
            | p # ps \<Rightarrow> (hd s # p) # ps))"
  by pat_completeness auto
termination
  by (relation "measure (\<lambda>(s, sep). length s)") auto

text \<open>\<^verbatim>\<open>s.split(sep, maxsplit)\<close>: at most \<open>maxsplit\<close> cuts, the rest of the text is the last part.\<close>

function str_split_max :: "string \<Rightarrow> string \<Rightarrow> nat \<Rightarrow> string list" where
  "str_split_max s sep maxsplit =
     (if sep = [] \<or> maxsplit = 0 then [s]
      else if s = [] then [[]]
      else if startswith s sep then [] # str_split_max (drop (length sep) s) sep (maxsplit - 1)
      else (case str_split_max (tl s) sep maxsplit of
              [] \<Rightarrow> [[hd s]]
            | p # ps \<Rightarrow> (hd s # p) # ps))"
  by pat_completeness auto
termination
  by (relation "measure (\<lambda>(s, sep, maxsplit). length s)") auto

text \<open>\<^verbatim>\<open>s.replace(old, new)\<close> for a non-empty \<open>old\<close> (the source passes \<^verbatim>\<open>"**"\<close>).\<close>

function str_replace :: "string \<Rightarrow> string \<Rightarrow> string \<Rightarrow> string" where
  "str_replace s old new =
     (if old = [] \<or> s = [] then s
      else if startswith s old then new @ str_replace (drop (length old) s) old new
      else hd s # str_replace (tl s) old new)"
  by pat_completeness auto
termination
  by (relation "measure (\<lambda>(s, old, new). length s)") auto

text \<open>\<^verbatim>\<open>sep.join(parts)\<close>.\<close>

fun str_join :: "string \<Rightarrow> string list \<Rightarrow> string" where
  "str_join sep [] = []"
| "str_join sep [p] = p"
| "str_join sep (p # q # ps) = p @ sep @ str_join sep (q # ps)"

text \<open>\<^verbatim>\<open>xs[i]\<close> for \<open>i \<ge> 0\<close>: an index past the end raises \<open>IndexError\<close>.\<close>

definition item :: "'a list \<Rightarrow> nat \<Rightarrow> error + 'a" where
  "item xs i = (if i < length xs then Inr (xs ! i) else Inl IndexError)"

section \<open>The graph: \<^verbatim>\<open>networkx.Graph\<close>\<close>

text \<open>
  \<^verbatim>\<open>nx.Graph()\<close> is an undirected graph without parallel edges. It keeps the nodes in
  insertion order and, for every node, a dictionary from neighbour to the edge's attribute
  dictionary; the two directions of an edge share one attribute dictionary. The only
  attribute the program sets is \<^verbatim>\<open>label\<close>, so \<open>adj G (u, v)\<close> is the label stored under
  \<^verbatim>\<open>G._adj[u][v]\<close>.
\<close>

record graph =
  nodes :: "string list"
  adj :: "string \<times> string \<Rightarrow> string option"

definition empty_graph :: graph where
  "empty_graph = \<lparr>nodes = [], adj = (\<lambda>k. None)\<rparr>"

text \<open>\<^verbatim>\<open>G.add_node(n)\<close>: a node already present is left alone.\<close>

definition add_node :: "graph \<Rightarrow> string \<Rightarrow> graph" where
  "add_node g n = (if n \<in> set (nodes g) then g else g\<lparr>nodes := nodes g @ [n]\<rparr>)"

text \<open>
  \<^verbatim>\<open>G.add_edge(u, v, label=l)\<close>: both end points become nodes when they are not, and the
  label is stored under \<open>(u, v)\<close> and under \<open>(v, u)\<close>, replacing what was there.
\<close>

definition add_edge :: "graph \<Rightarrow> string \<Rightarrow> string \<Rightarrow> string \<Rightarrow> graph" where
  "add_edge g u v l =
     (let g' = add_node (add_node g u) v
      in g'\<lparr>adj := (adj g')((u, v) := Some l, (v, u) := Some l)\<rparr>)"

text \<open>
  \<^verbatim>\<open>G.edges(data=True)\<close>: every edge once, reported from the end point that comes first
  in node order (a self-loop once), with its label. Edges of one node are listed here in
  node order of the other end point.
\<close>

definition edges_from :: "graph \<Rightarrow> string \<Rightarrow> string list \<Rightarrow> (string \<times> string \<times> string) list" where
  "edges_from g u vs =
     concat (map (\<lambda>v. case adj g (u, v) of None \<Rightarrow> [] | Some l \<Rightarrow> [(u, v, l)]) vs)"

fun edges_of :: "graph \<Rightarrow> string list \<Rightarrow> (string \<times> string \<times> string) list" where
  "edges_of g [] = []"
| "edges_of g (u # vs) = edges_from g u (u # vs) @ edges_of g vs"

definition edges :: "graph \<Rightarrow> (string \<times> string \<times> string) list" where
  "edges g = edges_of g (nodes g)"

section \<open>The Graph Builder: \<^verbatim>\<open>_build_graph_from_summaries\<close>\<close>

datatype log_entry = LogInfo string | LogError string error

text \<open>The variables of the loop over the lines of one summary, and the graph they fill.\<close>

record parse_state =
  entities_section :: bool
  relationships_section :: bool
  entities :: "string list"
  G :: graph

definition is_entities_header :: "string \<Rightarrow> bool" where
  "is_entities_header line =
     (startswith line ''### Entities:'' \<or> startswith line ''**Entities:**''
      \<or> startswith line ''Entities:'')"

definition is_relationships_header :: "string \<Rightarrow> bool" where
  "is_relationships_header line =
     (startswith line ''### Relationships:'' \<or> startswith line ''**Relationships:**''
      \<or> startswith line ''Relationships:'')"

text \<open>
  Lines 137 and 138: \<^verbatim>\<open>if line[0].isdigit() and line[1] == ".": line = line.split(".", 1)[1].strip()\<close>.
  The line is not blank here, so \<^verbatim>\<open>line[0]\<close> exists; \<^verbatim>\<open>line[1]\<close> is read only when the
  first character is a digit and raises on a line of one character.
\<close>

definition strip_enumeration :: "string \<Rightarrow> error + string" where
  "strip_enumeration line =
     (case item line 0 of
        Inl e \<Rightarrow> Inl e
      | Inr c0 \<Rightarrow>
          if isdigit c0 then
            (case item line 1 of
               Inl e \<Rightarrow> Inl e
             | Inr c1 \<Rightarrow>
                 if c1 = CHR ''.'' then
                   (case item (str_split_max line ''.'' 1) 1 of
                      Inl e \<Rightarrow> Inl e
                    | Inr rest \<Rightarrow> Inr (strip rest))
                 else Inr line)
          else Inr line)"

text \<open>The body of the loop over the lines (lines 128 to 149): one line, from one state to the next.\<close>

definition parse_line :: "parse_state \<Rightarrow> string \<Rightarrow> error + parse_state" where
  "parse_line st line =
     (if is_entities_header line then
        Inr (st\<lparr>entities_section := True, relationships_section := False\<rparr>)
      else if is_relationships_header line then
        Inr (st\<lparr>entities_section := False, relationships_section := True\<rparr>)
      else if entities_section st \<and> strip line \<noteq> [] then
        (case strip_enumeration line of
           Inl e \<Rightarrow> Inl e
         | Inr line' \<Rightarrow>
             (let entity = str_replace (strip line') ''**'' []
              in Inr (st\<lparr>entities := entities st @ [entity], G := add_node (G st) entity\<rparr>)))
      else if relationships_section st \<and> strip line \<noteq> [] then
        (let parts = str_split line ''->''
         in if length parts \<ge> 2 then
              (let source = strip (hd parts);
                   target = strip (last parts);
                   relation = strip (str_join '' -> '' (butlast (tl parts)))
               in Inr (st\<lparr>G := add_edge (G st) source target relation\<rparr>))
            else Inr st)
      else Inr st)"

text \<open>
  The loop over the lines of a summary. An exception leaves the loop; the graph is mutated
  in place, so what the earlier lines added stays in it.
\<close>

fun parse_lines :: "parse_state \<Rightarrow> string list \<Rightarrow> parse_state \<times> error option" where
  "parse_lines st [] = (st, None)"
| "parse_lines st (line # rest) =
     (case parse_line st line of
        Inl e \<Rightarrow> (st, Some e)
      | Inr st' \<Rightarrow> parse_lines st' rest)"

definition start_state :: "graph \<Rightarrow> parse_state" where
  "start_state g =
     \<lparr>entities_section = False, relationships_section = False, entities = [], G = g\<rparr>"

text \<open>
  The loop over the summaries (lines 121 to 149). It stands inside one \<^verbatim>\<open>try\<close>, so an
  exception raised for one summary leaves this loop as well.
\<close>

fun parse_summaries :: "graph \<Rightarrow> log_entry list \<Rightarrow> string list \<Rightarrow> graph \<times> log_entry list \<times> error option" where
  "parse_summaries g lg [] = (g, lg, None)"
| "parse_summaries g lg (summary # rest) =
     (case parse_lines (start_state g) (str_split summary [CHR 0x0A]) of
        (st, Some e) \<Rightarrow> (G st, lg @ [LogInfo ''Entities in the function:[]''], Some e)
      | (st, None) \<Rightarrow> parse_summaries (G st) (lg @ [LogInfo ''Entities in the function:[]'']) rest)"

text \<open>The function: the graph it returns and what it logged.\<close>

definition build_graph_from_summaries :: "string list \<Rightarrow> graph \<times> log_entry list" where
  "build_graph_from_summaries summaries =
     (case parse_summaries empty_graph [] summaries of
        (g, lg, None) \<Rightarrow> (g, lg)
      | (g, lg, Some e) \<Rightarrow> (g, lg @ [LogError ''Error building graph from summaries'' e]))"

section \<open>The Chunker: \<^verbatim>\<open>_split_documents_into_chunks\<close>\<close>

text \<open>
  \<^verbatim>\<open>range(i, stop, step)\<close> for a step that is not zero: upwards while \<open>i < stop\<close> for a
  positive step, downwards while \<open>stop < i\<close> for a negative one.
\<close>

function py_range :: "int \<Rightarrow> int \<Rightarrow> int \<Rightarrow> int list" where
  "py_range i stop step =
     (if 0 < step \<and> i < stop then i # py_range (i + step) stop step
      else if step < 0 \<and> stop < i then i # py_range (i + step) stop step
      else [])"
  by pat_completeness auto
termination
  by (relation "measure (\<lambda>(i, stop, step). nat (if 0 < step then stop - i else i - stop))") auto

text \<open>
  \<^verbatim>\<open>xs[i:j]\<close>: a negative bound counts from the end, and both bounds are clamped to the
  list.
\<close>

definition slice_bound :: "'a list \<Rightarrow> int \<Rightarrow> nat" where
  "slice_bound xs k =
     (if k < 0 then nat (max 0 (k + int (length xs))) else min (nat k) (length xs))"

definition slice :: "'a list \<Rightarrow> int \<Rightarrow> int \<Rightarrow> 'a list" where
  "slice xs i j = take (slice_bound xs j - slice_bound xs i) (drop (slice_bound xs i) xs)"

text \<open>
  The loop over the documents (lines 76 to 79), with the chunks collected so far.
  \<^verbatim>\<open>range\<close> raises \<open>ValueError\<close> for a step of zero, at the first document.
\<close>

fun chunk_documents :: "string list \<Rightarrow> int \<Rightarrow> int \<Rightarrow> string list \<Rightarrow> error + string list" where
  "chunk_documents [] chunk_size overlap_size chunks = Inr chunks"
| "chunk_documents (document # rest) chunk_size overlap_size chunks =
     (if chunk_size - overlap_size = 0 then Inl ValueError
      else chunk_documents rest chunk_size overlap_size
             (chunks @ map (\<lambda>i. slice document i (i + chunk_size))
                           (py_range 0 (int (length document)) (chunk_size - overlap_size))))"

definition split_documents_into_chunks :: "string list \<Rightarrow> int \<Rightarrow> int \<Rightarrow> error + string list" where
  "split_documents_into_chunks documents chunk_size overlap_size =
     chunk_documents documents chunk_size overlap_size []"

section \<open>The run: \<^verbatim>\<open>process_txts_and_update_neo4j\<close>\<close>

text \<open>
  The collaborators are parameters: \<open>connect\<close> is what \<^verbatim>\<open>GraphDatabase.driver(...)\<close> does
  (it raises, or returns a driver), \<open>stages\<close> what \<^verbatim>\<open>_process_txts_and_update_neo4j(driver)\<close>
  does and \<open>close\<close> what \<^verbatim>\<open>driver.close()\<close> does (\<open>None\<close>: it returns, \<open>Some e\<close>: it
  raises \<open>e\<close>). The run yields its log, whether \<^verbatim>\<open>close\<close> was called, and the exception
  that leaves the function, if any.
\<close>

record run =
  run_log :: "log_entry list"
  close_called :: bool
  escaped :: "error option"

text \<open>
  The \<^verbatim>\<open>try\<close> block (lines 37 to 43): the binding of the local \<^verbatim>\<open>driver\<close> when the block
  is left (\<open>None\<close>: never assigned), the log, and the exception raised in it.
\<close>

definition try_block :: "(error + 'd) \<Rightarrow> ('d \<Rightarrow> error option) \<Rightarrow> 'd option \<times> log_entry list \<times> error option" where
  "try_block connect stages =
     (case connect of
        Inl e \<Rightarrow> (None, [], Some e)
      | Inr driver \<Rightarrow>
          (case stages driver of
             Some e \<Rightarrow>
               (Some driver,
                [LogInfo ''Connected to Neo4j'',
                 LogInfo ''Processing text files and updating Neo4j with extracted data''],
                Some e)
           | None \<Rightarrow>
               (Some driver,
                [LogInfo ''Connected to Neo4j'',
                 LogInfo ''Processing text files and updating Neo4j with extracted data'',
                 LogInfo ''Total processing time''],
                None)))"

text \<open>
  The \<^verbatim>\<open>finally\<close> block (line 47), \<^verbatim>\<open>driver.close()\<close>: reading a local that was never
  assigned raises \<open>UnboundLocalError\<close> before anything is called.
\<close>

definition finally_block :: "'d option \<Rightarrow> ('d \<Rightarrow> error option) \<Rightarrow> bool \<times> error option" where
  "finally_block driver close =
     (case driver of
        None \<Rightarrow> (False, Some UnboundLocalError)
      | Some d \<Rightarrow> (True, close d))"

definition process_txts_and_update_neo4j :: "(error + 'd) \<Rightarrow> ('d \<Rightarrow> error option) \<Rightarrow> ('d \<Rightarrow> error option) \<Rightarrow> run" where
  "process_txts_and_update_neo4j connect stages close =
     (case try_block connect stages of
        (driver, lg, raised) \<Rightarrow>
          (let lg' = [LogInfo ''Starting process to update Neo4j with text file data''] @ lg @
                     (case raised of
                        None \<Rightarrow> []
                      | Some e \<Rightarrow> [LogError ''Failed to process text files and update Neo4j'' e])
           in case finally_block driver close of
                (called, err) \<Rightarrow> \<lparr>run_log = lg', close_called = called, escaped = err\<rparr>))"

declare str_split.simps [simp del]

declare str_split_max.simps [simp del]

declare str_replace.simps [simp del]

declare py_range.simps [simp del]

section \<open>Auxiliary notions for the proofs\<close>

text \<open>
  The windows of width \<open>len\<close> that start every \<open>step\<close> elements of a list: what the Chunker
  produces for one document, written without indices.
\<close>

function windows :: "nat \<Rightarrow> nat \<Rightarrow> 'a list \<Rightarrow> 'a list list" where
  "windows len step xs =
     (if step = 0 \<or> xs = [] then [] else take len xs # windows len step (drop step xs))"
  by pat_completeness auto
termination
  by (relation "measure (\<lambda>(len, step, xs). length xs)") auto

declare windows.simps [simp del]


section \<open>The Graph Builder on the specification's example\<close>

text \<open>
  Claim C3. For the single summary
  \<^verbatim>\<open>"Entities:\n1. Alice\n2. Bob\nRelationships:\nAlice->knows->Bob"\<close> the Graph Builder
  returns a graph whose nodes are exactly \<^verbatim>\<open>Alice\<close> and \<^verbatim>\<open>Bob\<close> and whose only edge
  joins \<^verbatim>\<open>Alice\<close> to \<^verbatim>\<open>Bob\<close> with the label \<^verbatim>\<open>knows\<close>; nothing is raised.
\<close>

theorem example_alice_knows_bob:
  "nodes (fst (build_graph_from_summaries
      [''Entities:\<newline>1. Alice\<newline>2. Bob\<newline>Relationships:\<newline>Alice->knows->Bob''])) = [''Alice'', ''Bob'']
   \<and> edges (fst (build_graph_from_summaries
      [''Entities:\<newline>1. Alice\<newline>2. Bob\<newline>Relationships:\<newline>Alice->knows->Bob''])) = [(''Alice'', ''Bob'', ''knows'')]
   \<and> snd (build_graph_from_summaries
      [''Entities:\<newline>1. Alice\<newline>2. Bob\<newline>Relationships:\<newline>Alice->knows->Bob'']) = [LogInfo ''Entities in the function:[]'']"
  by code_simp

text \<open>
  Claim C1 fails on the code. The \<^verbatim>\<open>try\<close> of the Graph Builder encloses the loop over the
  summaries, so the \<open>IndexError\<close> of the one-character entity line \<^verbatim>\<open>5\<close> in the first
  summary is logged and ends the build: the second summary, which alone yields the node
  \<^verbatim>\<open>Alice\<close>, is never parsed.
\<close>

theorem error_in_one_summary_ends_the_build:
  "nodes (fst (build_graph_from_summaries [''Entities:\<newline>5'', ''Entities:\<newline>Alice''])) = []
   \<and> snd (build_graph_from_summaries [''Entities:\<newline>5'', ''Entities:\<newline>Alice'']) =
       [LogInfo ''Entities in the function:[]'',
        LogError ''Error building graph from summaries'' IndexError]
   \<and> nodes (fst (build_graph_from_summaries [''Entities:\<newline>Alice''])) = [''Alice'']"
  by code_simp

text \<open>
  Claim C2 fails on the code. The graph is an undirected \<^verbatim>\<open>nx.Graph\<close>: the relations
  \<^verbatim>\<open>A->likes->B\<close> and \<^verbatim>\<open>B->hates->A\<close> end as one edge carrying the later label, and an edge
  is reported from the end point that became a node first, whatever the relation's source
  was.
\<close>

theorem opposite_relations_share_one_edge:
  "nodes (fst (build_graph_from_summaries
      [''Relationships:\<newline>A->likes->B\<newline>B->hates->A''])) = [''A'', ''B'']
   \<and> edges (fst (build_graph_from_summaries
      [''Relationships:\<newline>A->likes->B\<newline>B->hates->A''])) = [(''A'', ''B'', ''hates'')]
   \<and> edges (fst (build_graph_from_summaries
      [''Entities:\<newline>Bob\<newline>Alice\<newline>Relationships:\<newline>Alice->knows->Bob''])) =
       [(''Bob'', ''Alice'', ''knows'')]"
  by code_simp

section \<open>The invariant of the built graph\<close>

lemma nodes_add_node: "set (nodes (add_node g n)) = insert n (set (nodes g))"
  by (auto simp: add_node_def)

lemma adj_add_node: "adj (add_node g n) = adj g"
  by (simp add: add_node_def)

lemma nodes_add_edge: "set (nodes (add_edge g u v l)) = insert u (insert v (set (nodes g)))"
  by (auto simp: add_edge_def Let_def nodes_add_node)

lemma adj_add_edge: "adj (add_edge g u v l) = (adj g)((u, v) := Some l, (v, u) := Some l)"
  by (simp add: add_edge_def Let_def adj_add_node)









section \<open>Relationship lines\<close>

lemma str_split_not_Nil: "str_split s sep \<noteq> []"
  by (simp add: str_split.simps[of s sep] split: list.splits)

lemma str_join_Cons_Cons: "str_join sep ((c # p) # ps) = c # str_join sep (p # ps)"
  by (cases ps) simp_all

lemma str_join_Nil_Cons: "ps \<noteq> [] \<Longrightarrow> str_join sep ([] # ps) = sep @ str_join sep ps"
  by (cases ps) simp_all

lemma str_join_split: "sep \<noteq> [] \<Longrightarrow> str_join sep (str_split s sep) = s"
proof (induction s sep rule: str_split.induct)
  case (1 s sep)
  show ?case
  proof (cases "s = []")
    case True
    then show ?thesis using "1.prems" by (simp add: str_split.simps[of "[]" sep])
  next
    case ne: False
    show ?thesis
    proof (cases "startswith s sep")
      case True
      then have "sep @ drop (length sep) s = s"
        by (metis append_take_drop_id startswith_def)
      then show ?thesis
        using "1.IH"(1)[OF "1.prems" ne True] "1.prems" ne True
        by (simp add: str_split.simps[of s sep] str_join_Nil_Cons str_split_not_Nil)
    next
      case False
      obtain p ps where sp: "str_split (tl s) sep = p # ps"
        using str_split_not_Nil[of "tl s" sep] by (cases "str_split (tl s) sep") auto
      have "str_join sep (p # ps) = tl s"
        using "1.IH"(2)[OF "1.prems" ne False] "1.prems" sp by simp
      then show ?thesis using "1.prems" ne False sp
        by (simp add: str_split.simps[of s sep] str_join_Cons_Cons)
    qed
  qed
qed

lemma split_leading_arrow:
  assumes "startswith line ''->''"
  shows "hd (str_split line ''->'') = [] \<and> 2 \<le> length (str_split line ''->'')"
proof -
  have ne: "line \<noteq> []" using assms by (auto simp: startswith_def)
  have "str_split line ''->'' = [] # str_split (drop 2 line) ''->''"
    using assms ne by (simp add: str_split.simps[of line] numeral_2_eq_2)
  moreover have "1 \<le> length (str_split (drop 2 line) ''->'')"
    using str_split_not_Nil[of "drop 2 line" "''->''"] by (cases "str_split (drop 2 line) ''->''") auto
  ultimately show ?thesis by simp
qed

lemma split_trailing_arrow:
  "line = pre @ ''->'' \<Longrightarrow>
   last (str_split line ''->'') = [] \<and> 2 \<le> length (str_split line ''->'')"
proof (induction "length line" arbitrary: line pre rule: less_induct)
  case less
  have ne: "line \<noteq> []" using less.prems by simp
  show ?case
  proof (cases "startswith line ''->''")
    case True
    then have sp: "str_split line ''->'' = [] # str_split (drop 2 line) ''->''"
      using ne by (simp add: str_split.simps[of line] numeral_2_eq_2)
    show ?thesis
    proof (cases "pre = []")
      case True
      then have "drop 2 line = []" using less.prems by simp
      then show ?thesis using sp by (simp add: str_split.simps[of "[]"])
    next
      case False
      have "take 2 line = ''->''" using True by (simp add: startswith_def numeral_2_eq_2)
      then have "\<exists>pre'. pre = ''->'' @ pre'"
        using less.prems False
        by (cases pre; cases "tl pre") (auto simp: startswith_def)
      then obtain pre' where "pre = ''->'' @ pre'" by blast
      then have d: "drop 2 line = pre' @ ''->''" using less.prems by simp
      have "length (drop 2 line) < length line" using ne by simp
      from less.hyps[OF this d] show ?thesis using sp str_split_not_Nil by simp
    qed
  next
    case False
    then have "pre \<noteq> []" using less.prems by (auto simp: startswith_def)
    then obtain c pre' where pre: "pre = c # pre'" by (cases pre) auto
    then have t: "tl line = pre' @ ''->''" using less.prems by simp
    have "length (tl line) < length line" using ne by simp
    from less.hyps[OF this t]
    have ih: "last (str_split (tl line) ''->'') = []" "2 \<le> length (str_split (tl line) ''->'')"
      by simp_all
    then obtain p q ps where "str_split (tl line) ''->'' = p # q # ps"
      by (cases "str_split (tl line) ''->''"; cases "tl (str_split (tl line) ''->'')") auto
    then show ?thesis using ih False ne by (simp add: str_split.simps[of line])
  qed
qed

lemma in_dropWhile: "c \<in> set s \<Longrightarrow> \<not> P c \<Longrightarrow> c \<in> set (dropWhile P s)"
  by (induction s) auto

lemma strip_not_blank:
  assumes "c \<in> set s" "\<not> isspace c"
  shows "strip s \<noteq> []"
proof -
  have "c \<in> set (dropWhile isspace s)" using assms by (rule in_dropWhile)
  then have "\<exists>x \<in> set (rev (dropWhile isspace s)). \<not> isspace x" using assms(2) by auto
  then show ?thesis by (simp add: strip_def dropWhile_eq_Nil_conv)
qed

lemma strip_Nil: "strip [] = []"
  by (simp add: strip_def)

lemma arrow_not_space: "\<not> isspace CHR ''-''" "\<not> isspace CHR ''>''"
  by (simp_all add: isspace_def)

text \<open>
  Claim C8, as stated, fails on a chained line: the middle parts are joined with
  \<^verbatim>\<open>" -> "\<close>, an arrow between two spaces, so \<^verbatim>\<open>a->b->c->d\<close> gets the label \<^verbatim>\<open>b -> c\<close> and not
  \<^verbatim>\<open>b->c\<close>.
\<close>

theorem chained_label_is_joined_with_spaces:
  "adj (fst (build_graph_from_summaries [''Relationships:\<newline>a->b->c->d''])) (''a'', ''d'') = Some ''b -> c''
   \<and> adj (fst (build_graph_from_summaries [''Relationships:\<newline>a->b->c->d''])) (''a'', ''d'') \<noteq> Some ''b->c''"
  by code_simp

text \<open>
  Claim C8, amended. For every line that is not blank and not a section header, handled
  while the relationships section is open: the parts of the line are what splitting on
  \<^verbatim>\<open>->\<close> gives (joined with \<^verbatim>\<open>->\<close> they are the line again); with fewer than two parts the
  state, and so the graph, is unchanged and nothing is raised; otherwise nothing is raised
  and one edge is added, from the first part trimmed to the last part trimmed, labelled
  with the parts strictly between them joined with \<^verbatim>\<open>" -> "\<close> and trimmed.
\<close>

theorem relationship_line:
  assumes "relationships_section st" "\<not> entities_section st" "strip line \<noteq> []"
    and "\<not> is_entities_header line" "\<not> is_relationships_header line"
  shows "str_join ''->'' (str_split line ''->'') = line
   \<and> parse_line st line =
       Inr (if length (str_split line ''->'') < 2 then st
            else st\<lparr>G := add_edge (G st)
                   (strip (hd (str_split line ''->'')))
                   (strip (last (str_split line ''->'')))
                   (strip (str_join '' -> '' (butlast (tl (str_split line ''->'')))))\<rparr>)"
  using assms by (simp add: parse_line_def Let_def str_join_split)

theorem relationship_line_witness:
  "relationships_section ((start_state empty_graph)\<lparr>relationships_section := True\<rparr>)
   \<and> \<not> entities_section ((start_state empty_graph)\<lparr>relationships_section := True\<rparr>)
   \<and> strip ''a->b->c->d'' \<noteq> []
   \<and> \<not> is_entities_header ''a->b->c->d'' \<and> \<not> is_relationships_header ''a->b->c->d''
   \<and> str_split ''a->b->c->d'' ''->'' = [''a'', ''b'', ''c'', ''d'']
   \<and> parse_line ((start_state empty_graph)\<lparr>relationships_section := True\<rparr>) ''a->b->c->d'' =
       Inr ((start_state empty_graph)\<lparr>relationships_section := True,
              G := add_edge empty_graph ''a'' ''d'' ''b -> c''\<rparr>)"
proof -
  let ?st = "(start_state empty_graph)\<lparr>relationships_section := True\<rparr>"
  have h1: "relationships_section ?st" and h2: "\<not> entities_section ?st"
    by (simp_all add: start_state_def)
  have h3: "strip ''a->b->c->d'' \<noteq> []" by code_simp
  have h4: "\<not> is_entities_header ''a->b->c->d''" by code_simp
  have h5: "\<not> is_relationships_header ''a->b->c->d''" by code_simp
  have sp: "str_split ''a->b->c->d'' ''->'' = [''a'', ''b'', ''c'', ''d'']" by code_simp
  have s1: "strip ''a'' = ''a''" and s2: "strip ''d'' = ''d''" and s3: "strip ''b -> c'' = ''b -> c''"
    by code_simp+
  from relationship_line[OF h1 h2 h3 h4 h5] h1 h2 h3 h4 h5 sp s1 s2 s3 show ?thesis
    by (simp add: start_state_def)
qed

text \<open>
  Claim C10. A line handled while the relationships section is open, not a section header,
  that begins or ends with \<^verbatim>\<open>->\<close> is neither ignored nor refused: nothing is raised, the
  empty string is a node of the graph afterwards and an edge is incident to it. The
  example is \<^verbatim>\<open>->knows->Bob\<close>.
\<close>

theorem empty_endpoint_is_a_node:
  assumes "relationships_section st" "\<not> entities_section st"
    and "\<not> is_entities_header line" "\<not> is_relationships_header line"
    and "startswith line ''->'' \<or> (\<exists>pre. line = pre @ ''->'')"
  shows "\<exists>st'. parse_line st line = Inr st' \<and> [] \<in> set (nodes (G st'))
           \<and> (\<exists>v l. adj (G st') ([], v) = Some l)"
proof -
  let ?parts = "str_split line ''->''"
  have "CHR ''-'' \<in> set line"
  proof (rule disjE[OF assms(5)])
    assume "startswith line ''->''"
    then obtain rest where "line = ''->'' @ rest"
      by (metis append_take_drop_id startswith_def)
    then show ?thesis by simp
  next
    assume "\<exists>pre. line = pre @ ''->''"
    then show ?thesis by auto
  qed
  then have blank: "strip line \<noteq> []" using arrow_not_space(1) by (rule strip_not_blank)
  have len: "2 \<le> length ?parts" and ends: "hd ?parts = [] \<or> last ?parts = []"
    using assms(5) split_leading_arrow[of line] split_trailing_arrow[of line] by auto
  let ?g = "add_edge (G st) (strip (hd ?parts)) (strip (last ?parts))
              (strip (str_join '' -> '' (butlast (tl ?parts))))"
  have res: "parse_line st line = Inr (st\<lparr>G := ?g\<rparr>)"
    using assms(1-4) blank len by (simp add: parse_line_def Let_def)
  have e: "strip (hd ?parts) = [] \<or> strip (last ?parts) = []" using ends strip_Nil by auto
  have n: "[] \<in> set (nodes ?g)" using e by (auto simp: nodes_add_edge)
  have a: "\<exists>v l. adj ?g ([], v) = Some l"
  proof (rule disjE[OF e])
    assume "strip (hd ?parts) = []"
    then have "adj ?g ([], strip (last ?parts)) = Some (strip (str_join '' -> '' (butlast (tl ?parts))))"
      by (simp add: adj_add_edge)
    then show ?thesis by blast
  next
    assume "strip (last ?parts) = []"
    then have "adj ?g ([], strip (hd ?parts)) = Some (strip (str_join '' -> '' (butlast (tl ?parts))))"
      by (simp add: adj_add_edge)
    then show ?thesis by blast
  qed
  show ?thesis using res n a by simp
qed

theorem empty_endpoint_is_a_node_witness:
  "relationships_section ((start_state empty_graph)\<lparr>relationships_section := True\<rparr>)
   \<and> \<not> entities_section ((start_state empty_graph)\<lparr>relationships_section := True\<rparr>)
   \<and> \<not> is_entities_header ''->knows->Bob'' \<and> \<not> is_relationships_header ''->knows->Bob''
   \<and> startswith ''->knows->Bob'' ''->''
   \<and> (\<exists>st'. parse_line ((start_state empty_graph)\<lparr>relationships_section := True\<rparr>) ''->knows->Bob'' = Inr st'
          \<and> [] \<in> set (nodes (G st')) \<and> (\<exists>v l. adj (G st') ([], v) = Some l))
   \<and> nodes (fst (build_graph_from_summaries [''Relationships:\<newline>->knows->Bob''])) = ['''', ''Bob'']
   \<and> edges (fst (build_graph_from_summaries [''Relationships:\<newline>->knows->Bob''])) = [('''', ''Bob'', ''knows'')]
   \<and> edges (fst (build_graph_from_summaries [''Relationships:\<newline>Bob->knows->''])) = [(''Bob'', '''', ''knows'')]"
proof -
  let ?st = "(start_state empty_graph)\<lparr>relationships_section := True\<rparr>"
  have h1: "relationships_section ?st" and h2: "\<not> entities_section ?st"
    by (simp_all add: start_state_def)
  have h3: "\<not> is_entities_header ''->knows->Bob''" by code_simp
  have h4: "\<not> is_relationships_header ''->knows->Bob''" by code_simp
  have h5: "startswith ''->knows->Bob'' ''->''" by code_simp
  have h5': "startswith ''->knows->Bob'' ''->'' \<or> (\<exists>pre. ''->knows->Bob'' = pre @ ''->'')"
    using h5 by simp
  have e1: "nodes (fst (build_graph_from_summaries [''Relationships:\<newline>->knows->Bob''])) = ['''', ''Bob'']"
    by code_simp
  have e2: "edges (fst (build_graph_from_summaries [''Relationships:\<newline>->knows->Bob''])) = [('''', ''Bob'', ''knows'')]"
    by code_simp
  have e3: "edges (fst (build_graph_from_summaries [''Relationships:\<newline>Bob->knows->''])) = [(''Bob'', '''', ''knows'')]"
    by code_simp
  from empty_endpoint_is_a_node[OF h1 h2 h3 h4 h5'] h1 h2 h3 h4 h5 e1 e2 e3 show ?thesis by blast
qed

text \<open>
  Claim C7 fails on the code. The first summary defines the edge between \<^verbatim>\<open>A\<close> and \<^verbatim>\<open>B\<close>
  with the label \<^verbatim>\<open>x\<close> and then raises on the entity line \<^verbatim>\<open>5\<close>; the second defines it
  with the label \<^verbatim>\<open>y\<close>. The exception ends the build, the second summary is never parsed
  and the one edge keeps the label of the earlier summary.
\<close>

theorem earlier_label_survives_an_error:
  "edges (fst (build_graph_from_summaries [''Relationships:\<newline>A->x->B\<newline>Entities:\<newline>5''])) = [(''A'', ''B'', ''x'')]
   \<and> edges (fst (build_graph_from_summaries [''Relationships:\<newline>A->y->B''])) = [(''A'', ''B'', ''y'')]
   \<and> edges (fst (build_graph_from_summaries
        [''Relationships:\<newline>A->x->B\<newline>Entities:\<newline>5'', ''Relationships:\<newline>A->y->B''])) = [(''A'', ''B'', ''x'')]"
  by code_simp

text \<open>
  Parsing a summary into a graph that already holds edges gives the edges it had, overridden
  by the edges the summary yields on its own; whether and where the parse raises does not
  depend on the graph.
\<close>

lemma parse_line_over:
  assumes f1: "entities_section st = entities_section st0"
    and f2: "relationships_section st = relationships_section st0"
    and a: "adj (G st) = m ++ adj (G st0)"
  shows "(\<exists>e. parse_line st line = Inl e \<and> parse_line st0 line = Inl e)
       \<or> (\<exists>st' st0'. parse_line st line = Inr st' \<and> parse_line st0 line = Inr st0'
            \<and> entities_section st' = entities_section st0'
            \<and> relationships_section st' = relationships_section st0'
            \<and> adj (G st') = m ++ adj (G st0'))"
proof (cases "is_entities_header line")
  case True
  then show ?thesis using a by (simp add: parse_line_def)
next
  case h1: False
  show ?thesis
  proof (cases "is_relationships_header line")
    case True
    then show ?thesis using h1 a by (simp add: parse_line_def)
  next
    case h2: False
    show ?thesis
    proof (cases "entities_section st0 \<and> strip line \<noteq> []")
      case True
      show ?thesis
      proof (cases "strip_enumeration line")
        case (Inl e)
        then show ?thesis using h1 h2 True f1 by (simp add: parse_line_def)
      next
        case (Inr line')
        then show ?thesis using h1 h2 True f1 f2 a
          by (simp add: parse_line_def Let_def adj_add_node)
      qed
    next
      case h3: False
      show ?thesis
      proof (cases "relationships_section st0 \<and> strip line \<noteq> []")
        case True
        show ?thesis
        proof (cases "2 \<le> length (str_split line ''->'')")
          case True
          then show ?thesis using h1 h2 h3 \<open>relationships_section st0 \<and> strip line \<noteq> []\<close> f1 f2 a
            by (simp add: parse_line_def Let_def adj_add_edge)
        next
          case False
          then show ?thesis using h1 h2 h3 \<open>relationships_section st0 \<and> strip line \<noteq> []\<close> f1 f2 a
            by (simp add: parse_line_def Let_def)
        qed
      next
        case False
        then show ?thesis using h1 h2 h3 f1 f2 a by (auto simp: parse_line_def)
      qed
    qed
  qed
qed


lemma parse_lines_over:
  assumes "entities_section st = entities_section st0"
    and "relationships_section st = relationships_section st0"
    and "adj (G st) = m ++ adj (G st0)"
  shows "snd (parse_lines st ls) = snd (parse_lines st0 ls)
       \<and> adj (G (fst (parse_lines st ls))) = m ++ adj (G (fst (parse_lines st0 ls)))"
  using assms
proof (induction ls arbitrary: st st0)
  case Nil
  then show ?case by simp
next
  case (Cons line ls)
  from parse_line_over[OF Cons.prems, of line] show ?case
  proof (elim disjE exE conjE)
    fix e assume "parse_line st line = Inl e" "parse_line st0 line = Inl e"
    then show ?thesis using Cons.prems by simp
  next
    fix st' st0'
    assume r: "parse_line st line = Inr st'" "parse_line st0 line = Inr st0'"
      and f: "entities_section st' = entities_section st0'"
        "relationships_section st' = relationships_section st0'"
        "adj (G st') = m ++ adj (G st0')"
    from Cons.IH[OF f] show ?thesis using r by simp
  qed
qed

text \<open>
  When parsing the earlier of two summaries raises nothing, every edge the later summary
  defines carries, in the graph built from both, the label the later summary gives it.
\<close>

theorem later_label_wins_without_error:
  assumes "snd (build_graph_from_summaries [s1]) = [LogInfo ''Entities in the function:[]'']"
    and "adj (fst (build_graph_from_summaries [s2])) (u, v) = Some l2"
  shows "adj (fst (build_graph_from_summaries [s1, s2])) (u, v) = Some l2"
proof -
  let ?r1 = "parse_lines (start_state empty_graph) (str_split s1 [CHR 0x0A])"
  let ?g1 = "G (fst ?r1)"
  let ?r2 = "parse_lines (start_state ?g1) (str_split s2 [CHR 0x0A])"
  let ?r0 = "parse_lines (start_state empty_graph) (str_split s2 [CHR 0x0A])"
  have ok: "snd ?r1 = None"
  proof (cases "snd ?r1")
    case None
    then show ?thesis .
  next
    case (Some e)
    then have "snd (build_graph_from_summaries [s1]) =
        [LogInfo ''Entities in the function:[]'', LogError ''Error building graph from summaries'' e]"
      by (simp add: build_graph_from_summaries_def case_prod_beta)
    then show ?thesis using assms(1) by simp
  qed
  have ov: "adj (G (fst ?r2)) = adj ?g1 ++ adj (G (fst ?r0))"
    using parse_lines_over[of "start_state ?g1" "start_state empty_graph" "adj ?g1" "str_split s2 [CHR 0x0A]"]
    by (simp add: start_state_def empty_graph_def)
  have b2: "fst (build_graph_from_summaries [s2]) = G (fst ?r0)"
    by (cases "snd ?r0") (simp_all add: build_graph_from_summaries_def case_prod_beta)
  have b12: "fst (build_graph_from_summaries [s1, s2]) = G (fst ?r2)"
    using ok by (cases "snd ?r2") (simp_all add: build_graph_from_summaries_def case_prod_beta)
  show ?thesis using assms(2) unfolding b12 b2 ov by (simp add: map_add_def)
qed

theorem later_label_wins_without_error_witness:
  "snd (build_graph_from_summaries [''Relationships:\<newline>A->x->B'']) = [LogInfo ''Entities in the function:[]'']
   \<and> adj (fst (build_graph_from_summaries [''Relationships:\<newline>A->y->B''])) (''A'', ''B'') = Some ''y''
   \<and> adj (fst (build_graph_from_summaries [''Relationships:\<newline>A->x->B'', ''Relationships:\<newline>A->y->B''])) (''A'', ''B'') = Some ''y''"
proof -
  have h1: "snd (build_graph_from_summaries [''Relationships:\<newline>A->x->B'']) = [LogInfo ''Entities in the function:[]'']"
    by code_simp
  have h2: "adj (fst (build_graph_from_summaries [''Relationships:\<newline>A->y->B''])) (''A'', ''B'') = Some ''y''"
    by code_simp
  from h1 h2 later_label_wins_without_error[OF h1 h2] show ?thesis by simp
qed

section \<open>The Chunker\<close>

lemma slice_window:
  assumes "0 \<le> i" "0 < len"
  shows "slice xs i (i + len) = take (nat len) (drop (nat i) xs)"
proof -
  have a: "slice_bound xs i = min (nat i) (length xs)"
    using assms by (simp add: slice_bound_def)
  have b: "slice_bound xs (i + len) = min (nat i + nat len) (length xs)"
    using assms by (simp add: slice_bound_def nat_add_distrib)
  show ?thesis
  proof (cases "nat i \<le> length xs")
    case True
    then show ?thesis unfolding slice_def a b by (simp add: min_def)
  next
    case False
    then show ?thesis unfolding slice_def a b by simp
  qed
qed

lemma range_windows:
  "0 < step \<Longrightarrow> 0 \<le> i \<Longrightarrow> 0 < len \<Longrightarrow>
   map (\<lambda>j. slice xs j (j + len)) (py_range i (int (length xs)) step) =
   windows (nat len) (nat step) (drop (nat i) xs)"
proof (induction i "int (length xs)" step rule: py_range.induct)
  case (1 i step)
  show ?case
  proof (cases "i < int (length xs)")
    case True
    have d: "drop (nat (i + step)) xs = drop (nat step) (drop (nat i) xs)"
      using "1.prems" by (simp add: nat_add_distrib add.commute)
    have ne: "drop (nat i) xs \<noteq> []" using True "1.prems" by simp
    have "map (\<lambda>j. slice xs j (j + len)) (py_range (i + step) (int (length xs)) step) =
          windows (nat len) (nat step) (drop (nat (i + step)) xs)"
      using "1.hyps"(1) True "1.prems" by simp
    then show ?thesis
      using True "1.prems" ne d
      by (simp add: py_range.simps[of i] windows.simps[of _ _ "drop (nat i) xs"] slice_window)
  next
    case False
    then have "drop (nat i) xs = []" using "1.prems" by simp
    then show ?thesis using False "1.prems"
      by (simp add: py_range.simps[of i] windows.simps[of _ _ "[]"])
  qed
qed

lemma windows_length: "c \<in> set (windows len step xs) \<Longrightarrow> length c \<le> len"
proof (induction len step xs rule: windows.induct)
  case (1 len step xs)
  then show ?case
    by (cases "step = 0 \<or> xs = []") (auto simp: windows.simps[of len step xs])
qed

lemma windows_concat:
  "0 < step \<Longrightarrow> step < len \<Longrightarrow>
   concat (map (take step) (butlast (windows len step xs))) @
     (if windows len step xs = [] then [] else last (windows len step xs)) = xs"
proof (induction len step xs rule: windows.induct)
  case (1 len step xs)
  show ?case
  proof (cases "xs = []")
    case True
    then show ?thesis by (simp add: windows.simps[of len step "[]"])
  next
    case False
    note ne = False
    have w: "windows len step xs = take len xs # windows len step (drop step xs)"
      using ne "1.prems" by (simp add: windows.simps[of len step xs])
    show ?thesis
    proof (cases "drop step xs = []")
      case True
      then have "windows len step (drop step xs) = []"
        by (simp add: windows.simps[of len step "[]"])
      moreover have "length xs \<le> len" using True "1.prems" by simp
      ultimately show ?thesis using w by simp
    next
      case False
      then have w2: "windows len step (drop step xs) \<noteq> []"
        using "1.prems" by (simp add: windows.simps[of len step "drop step xs"])
      have ih: "concat (map (take step) (butlast (windows len step (drop step xs)))) @
          last (windows len step (drop step xs)) = drop step xs"
        using "1.IH" ne "1.prems" w2 by simp
      have "take step (take len xs) = take step xs" using "1.prems" by (simp add: min_def)
      then show ?thesis using w w2 ih by simp
    qed
  qed
qed

lemma windows_overlap:
  "0 < step \<Longrightarrow> step < len \<Longrightarrow> Suc k < length (windows len step xs) \<Longrightarrow>
   length (windows len step xs ! k) - step = min (len - step) (length (windows len step xs ! Suc k))
   \<and> take (length (windows len step xs ! k) - step) (windows len step xs ! Suc k) =
       drop step (windows len step xs ! k)"
proof (induction len step xs arbitrary: k rule: windows.induct)
  case (1 len step xs)
  have ne: "xs \<noteq> []" using "1.prems" by (auto simp: windows.simps[of len step xs])
  have w: "windows len step xs = take len xs # windows len step (drop step xs)"
    using ne "1.prems" by (simp add: windows.simps[of len step xs])
  show ?case
  proof (cases k)
    case 0
    have ne2: "drop step xs \<noteq> []"
      using "1.prems" w 0 by (auto simp: windows.simps[of len step "drop step xs"])
    have w2: "windows len step (drop step xs) ! 0 = take len (drop step xs)"
      using ne2 "1.prems" by (simp add: windows.simps[of len step "drop step xs"])
    have lt: "step < length xs" using ne2 by simp
    show ?thesis using 0 w w2 lt "1.prems"(1,2)
      by (auto simp: min_def drop_take)
  next
    case (Suc k')
    then have k': "Suc k' < length (windows len step (drop step xs))" using "1.prems" w by simp
    have c: "\<not> (step = 0 \<or> xs = [])" using ne "1.prems" by simp
    note h = "1.IH"[OF c "1.prems"(1) "1.prems"(2) k']
    show ?thesis unfolding w Suc nth_Cons_Suc by (rule h)
  qed
qed

text \<open>
  Claim C4. For every document and every chunk length \<open>L\<close> and overlap \<open>O\<close> with
  \<open>0 < O < L\<close>, the Chunker returns chunks (it raises nothing) such that: every chunk has at
  most \<open>L\<close> characters; of two consecutive chunks, the earlier one reaches exactly
  \<open>min O (length of the later one)\<close> characters past the start of the later one, and those
  trailing characters of the earlier chunk are the leading characters of the later one; the
  first \<open>L - O\<close> characters of every chunk but the last, followed by the whole last chunk,
  are the document.
\<close>

theorem chunks_cover_document:
  assumes "0 < overlap_size" "overlap_size < chunk_size"
  shows "\<exists>chunks. split_documents_into_chunks [document] chunk_size overlap_size = Inr chunks
     \<and> (\<forall>c \<in> set chunks. int (length c) \<le> chunk_size)
     \<and> (\<forall>k. Suc k < length chunks \<longrightarrow>
           length (chunks ! k) - nat (chunk_size - overlap_size) =
             min (nat overlap_size) (length (chunks ! Suc k))
         \<and> take (min (nat overlap_size) (length (chunks ! Suc k))) (chunks ! Suc k) =
             drop (length (chunks ! k) - min (nat overlap_size) (length (chunks ! Suc k))) (chunks ! k))
     \<and> concat (map (take (nat (chunk_size - overlap_size))) (butlast chunks)) @
         (if chunks = [] then [] else last chunks) = document"
proof -
  let ?len = "nat chunk_size" and ?step = "nat (chunk_size - overlap_size)"
  let ?cs = "windows ?len ?step document"
  have st: "0 < ?step" "?step < ?len" "?len - ?step = nat overlap_size" using assms by auto
  have eq: "split_documents_into_chunks [document] chunk_size overlap_size = Inr ?cs"
    using assms range_windows[of "chunk_size - overlap_size" 0 chunk_size document]
    by (simp add: split_documents_into_chunks_def)
  have p1: "\<forall>c \<in> set ?cs. int (length c) \<le> chunk_size"
    using windows_length[of _ ?len ?step document] assms by fastforce
  have p2: "\<forall>k. Suc k < length ?cs \<longrightarrow>
           length (?cs ! k) - ?step = min (nat overlap_size) (length (?cs ! Suc k))
         \<and> take (min (nat overlap_size) (length (?cs ! Suc k))) (?cs ! Suc k) =
             drop (length (?cs ! k) - min (nat overlap_size) (length (?cs ! Suc k))) (?cs ! k)"
  proof (intro allI impI)
    fix k assume k: "Suc k < length ?cs"
    note o = windows_overlap[OF st(1) st(2) k]
    have a: "length (?cs ! k) - ?step = min (nat overlap_size) (length (?cs ! Suc k))"
      using o st(3) by simp
    show "length (?cs ! k) - ?step = min (nat overlap_size) (length (?cs ! Suc k))
         \<and> take (min (nat overlap_size) (length (?cs ! Suc k))) (?cs ! Suc k) =
             drop (length (?cs ! k) - min (nat overlap_size) (length (?cs ! Suc k))) (?cs ! k)"
    proof (cases "length (?cs ! k) \<le> ?step")
      case True
      then show ?thesis using o a by auto
    next
      case False
      then have "length (?cs ! k) - (length (?cs ! k) - ?step) = ?step" by arith
      then show ?thesis using o a by metis
    qed
  qed
  have p3: "concat (map (take ?step) (butlast ?cs)) @ (if ?cs = [] then [] else last ?cs) = document"
    using windows_concat[OF st(1) st(2)] .
  show ?thesis using eq p1 p2 p3 by blast
qed

theorem chunks_cover_document_witness:
  "(0::int) < 1 \<and> (1::int) < 4 \<and>
   (\<exists>chunks. split_documents_into_chunks [''abcdefghij''] 4 1 = Inr chunks
     \<and> chunks = [''abcd'', ''defg'', ''ghij'', ''j'']
     \<and> concat (map (take (nat (4 - 1))) (butlast chunks)) @
         (if chunks = [] then [] else last chunks) = ''abcdefghij'')"
proof -
  have h1: "(0::int) < 1" and h2: "(1::int) < 4" by simp_all
  have e: "split_documents_into_chunks [''abcdefghij''] 4 1 = Inr [''abcd'', ''defg'', ''ghij'', ''j'']"
    by code_simp
  from chunks_cover_document[OF h1 h2, of "''abcdefghij''"] e show ?thesis
    by auto
qed

lemma py_range_negative_step: "step < 0 \<Longrightarrow> 0 \<le> stop \<Longrightarrow> py_range 0 stop step = []"
  by (simp add: py_range.simps[of 0])

lemma chunk_documents_negative_step:
  "chunk_size < overlap_size \<Longrightarrow>
   chunk_documents documents chunk_size overlap_size chunks = Inr chunks"
  by (induction documents arbitrary: chunks) (simp_all add: py_range_negative_step)

text \<open>
  Claim C5, as stated, fails: an overlap larger than the chunk length is not refused. The
  step is negative then, \<^verbatim>\<open>range\<close> is empty and the Chunker returns no chunks; and with no
  document at all \<^verbatim>\<open>range\<close> is never called, so nothing is raised even for \<open>O = L\<close>.
\<close>

theorem larger_overlap_is_not_refused:
  "split_documents_into_chunks [''abcdef''] 2 5 = Inr []
   \<and> split_documents_into_chunks [] 3 3 = Inr []"
  by (simp add: split_documents_into_chunks_def py_range_negative_step)

text \<open>
  Claim C5, amended. For \<open>O \<ge> L\<close> the Chunker raises exactly when \<open>O = L\<close> and there is at
  least one document: the error is the \<open>ValueError\<close> of \<^verbatim>\<open>range\<close> with step zero, raised at
  the first document. For \<open>O > L\<close>, and for an empty document list, it returns the empty
  chunk list.
\<close>

theorem overlap_not_below_chunk_size:
  assumes "chunk_size \<le> overlap_size"
  shows "split_documents_into_chunks documents chunk_size overlap_size =
     (if documents \<noteq> [] \<and> overlap_size = chunk_size then Inl ValueError else Inr [])"
proof (cases "overlap_size = chunk_size")
  case True
  then show ?thesis by (cases documents) (simp_all add: split_documents_into_chunks_def)
next
  case False
  with assms have "chunk_size < overlap_size" by simp
  then show ?thesis
    using False by (simp add: split_documents_into_chunks_def chunk_documents_negative_step)
qed

theorem overlap_not_below_chunk_size_witness:
  "(3::int) \<le> 3 \<and> split_documents_into_chunks [''ab''] 3 3 = Inl ValueError
   \<and> (2::int) \<le> 5 \<and> split_documents_into_chunks [''ab'', ''cde''] 2 5 = Inr []"
proof -
  have h1: "(3::int) \<le> 3" and h2: "(2::int) \<le> 5" by simp_all
  from overlap_not_below_chunk_size[OF h1, of "[''ab'']"]
       overlap_not_below_chunk_size[OF h2, of "[''ab'', ''cde'']"]
  show ?thesis by simp
qed

section \<open>The run\<close>

text \<open>
  Claim C9 fails on the code. When \<^verbatim>\<open>GraphDatabase.driver\<close> raises, the local \<^verbatim>\<open>driver\<close> was
  never assigned: the failure is logged by the \<^verbatim>\<open>except\<close> clause, and the \<^verbatim>\<open>finally\<close>
  clause then raises \<open>UnboundLocalError\<close>, which leaves the function; \<^verbatim>\<open>close\<close> is not
  called.
\<close>

theorem failed_connect_escapes_finally:
  "process_txts_and_update_neo4j (Inl e) stages close =
     \<lparr>run_log = [LogInfo ''Starting process to update Neo4j with text file data'',
                 LogError ''Failed to process text files and update Neo4j'' e],
      close_called = False, escaped = Some UnboundLocalError\<rparr>"
  by (simp add: process_txts_and_update_neo4j_def try_block_def finally_block_def)

text \<open>
  When the driver was acquired, \<^verbatim>\<open>close\<close> is called on every path, whether or not the
  stages raised, and only what \<^verbatim>\<open>close\<close> itself raises leaves the function.
\<close>

theorem acquired_driver_is_closed:
  "close_called (process_txts_and_update_neo4j (Inr d) stages close)
   \<and> escaped (process_txts_and_update_neo4j (Inr d) stages close) = close d"
  by (simp add: process_txts_and_update_neo4j_def try_block_def finally_block_def
           split: option.splits)

end
